theory Spec2Isabelle
  imports Complex_Main "HOL-Library.Multiset" "HOL-Library.Product_Lexorder"
    "HOL-Library.Sublist"
begin

section \<open>Data model of \<open>src/api/main.py\<close>\<close>

text \<open>
  The coordinates and every quantity derived from them are modelled as real numbers
  (finite values, exact arithmetic); the one place where the source produces a non-finite
  float, \<open>float('inf')\<close> in \<open>should_merge_bubbles\<close>, is modelled by the type \<open>pyfloat\<close>
  below. The mean score of a paragraph is computed in double precision, see
  \<open>round_double\<close>; the rectangle of a bbox with \<open>inf\<close> or \<open>nan\<close> among its coordinates is
  \<open>calculate_bbox_properties_float\<close>. A bbox is a list of points (the source iterates over it and never
  checks its length), a point is a pair of coordinates, a detection is the tuple
  \<open>(bbox, text, score)\<close>.
\<close>

datatype error = ValueError | ZeroDivisionError

type_synonym point = "real \<times> real"
type_synonym bbox = "point list"
type_synonym detection = "bbox \<times> string \<times> real"

text \<open>The dict returned by \<open>calculate_bbox_properties\<close>; the key \<open>top\<close> is the field
  \<open>top_edge\<close> here (and \<open>bottom\<close> is \<open>bottom_edge\<close>), since \<open>top\<close> is a constant of HOL.\<close>

record bbox_props =
  center_x :: real
  center_y :: real
  left :: real
  right :: real
  top_edge :: real
  bottom_edge :: real
  width :: real
  height :: real

text \<open>The dicts of \<open>items_with_props\<close> (keys bbox, text, score, props, used).\<close>

record item =
  item_bbox :: bbox
  item_text :: string
  item_score :: real
  item_props :: bbox_props
  item_used :: bool

text \<open>The dict \<open>paragraph_data\<close> (keys text, bbox, score, item_count, individual_items).
  \<open>calculate_collective_bbox\<close> may return \<open>None\<close>, hence the option.\<close>

record paragraph_data =
  para_text :: string
  para_bbox :: "bbox option"
  para_score :: real
  item_count :: nat
  individual_items :: "detection list"

datatype pyfloat = Finite real | PosInf

fun float_gt :: "pyfloat \<Rightarrow> real \<Rightarrow> bool" where
  "float_gt (Finite x) c = (x > c)"
| "float_gt PosInf c = True"

fun float_lt :: "pyfloat \<Rightarrow> real \<Rightarrow> bool" where
  "float_lt (Finite x) c = (x < c)"
| "float_lt PosInf c = False"

section \<open>Geometry\<close>

text \<open>Python's \<open>min\<close> and \<open>max\<close> of a list raise ValueError on an empty list.\<close>

fun py_min :: "real list \<Rightarrow> error + real" where
  "py_min [] = Inl ValueError"
| "py_min (x # xs) = Inr (fold min xs x)"

fun py_max :: "real list \<Rightarrow> error + real" where
  "py_max [] = Inl ValueError"
| "py_max (x # xs) = Inr (fold max xs x)"

definition calculate_bbox_properties :: "bbox \<Rightarrow> error + bbox_props" where
  "calculate_bbox_properties bbox =
     (let xs = map fst bbox; ys = map snd bbox in
      (case py_min xs of Inl e \<Rightarrow> Inl e | Inr l \<Rightarrow>
      (case py_max xs of Inl e \<Rightarrow> Inl e | Inr r \<Rightarrow>
      (case py_min ys of Inl e \<Rightarrow> Inl e | Inr t \<Rightarrow>
      (case py_max ys of Inl e \<Rightarrow> Inl e | Inr b \<Rightarrow>
         Inr \<lparr> center_x = (l + r) / 2, center_y = (t + b) / 2,
               left = l, right = r, top_edge = t, bottom_edge = b,
               width = r - l, height = b - t \<rparr>)))))"

definition calculate_distance :: "bbox_props \<Rightarrow> bbox_props \<Rightarrow> real" where
  "calculate_distance bbox1_props bbox2_props =
     (let dx = center_x bbox1_props - center_x bbox2_props;
          dy = center_y bbox1_props - center_y bbox2_props
      in sqrt (dx * dx + dy * dy))"

definition is_horizontally_aligned :: "bbox_props \<Rightarrow> bbox_props \<Rightarrow> real \<Rightarrow> bool" where
  "is_horizontally_aligned bbox1_props bbox2_props tolerance_factor =
     (let overlap_top = max (top_edge bbox1_props) (top_edge bbox2_props);
          overlap_bottom = min (bottom_edge bbox1_props) (bottom_edge bbox2_props);
          overlap_height = max 0 (overlap_bottom - overlap_top);
          min_height = min (height bbox1_props) (height bbox2_props)
      in overlap_height > min_height * tolerance_factor)"

definition is_vertically_aligned :: "bbox_props \<Rightarrow> bbox_props \<Rightarrow> real \<Rightarrow> bool" where
  "is_vertically_aligned bbox1_props bbox2_props tolerance_factor =
     (let overlap_left = max (left bbox1_props) (left bbox2_props);
          overlap_right = min (right bbox1_props) (right bbox2_props);
          overlap_width = max 0 (overlap_right - overlap_left);
          min_width = min (width bbox1_props) (width bbox2_props)
      in overlap_width > min_width * tolerance_factor)"

text \<open>The default \<open>tolerance_factor=0.3\<close> of both alignment tests.\<close>

definition default_tolerance :: real where
  "default_tolerance = 3 / 10"

definition relative_distance_of :: "bbox_props \<Rightarrow> bbox_props \<Rightarrow> pyfloat" where
  "relative_distance_of bbox1_props bbox2_props =
     (let avg_width = (width bbox1_props + width bbox2_props) / 2;
          avg_height = (height bbox1_props + height bbox2_props) / 2;
          avg_size = (avg_width + avg_height) / 2;
          distance = calculate_distance bbox1_props bbox2_props
      in if avg_size > 0 then Finite (distance / avg_size) else PosInf)"

definition should_merge_bubbles :: "bbox_props \<Rightarrow> bbox_props \<Rightarrow> real \<Rightarrow> bool" where
  "should_merge_bubbles bbox1_props bbox2_props max_distance_factor =
     (let relative_distance = relative_distance_of bbox1_props bbox2_props in
      if float_gt relative_distance max_distance_factor then False
      else
        let h_aligned = is_horizontally_aligned bbox1_props bbox2_props default_tolerance;
            v_aligned = is_vertically_aligned bbox1_props bbox2_props default_tolerance
        in if float_lt relative_distance (3 / 2) \<and> (h_aligned \<or> v_aligned) then True
           else if float_lt relative_distance (4 / 5) then True
           else False)"

section \<open>Reading order\<close>

text \<open>A map over a list that stops at the first raise.\<close>

fun collect :: "('a \<Rightarrow> error + 'b) \<Rightarrow> 'a list \<Rightarrow> error + 'b list" where
  "collect f [] = Inr []"
| "collect f (x # xs) =
     (case f x of Inl e \<Rightarrow> Inl e
      | Inr y \<Rightarrow> (case collect f xs of Inl e \<Rightarrow> Inl e | Inr ys \<Rightarrow> Inr (y # ys)))"

text \<open>The local function \<open>sort_key\<close> of \<open>manga_reading_order_sort\<close>.\<close>

definition sort_key_of :: "detection \<Rightarrow> error + (real \<times> real)" where
  "sort_key_of d =
     (case d of (bbox, text, score) \<Rightarrow>
        (case calculate_bbox_properties bbox of Inl e \<Rightarrow> Inl e
         | Inr props \<Rightarrow> Inr (center_y props, - center_x props)))"

text \<open>
  \<open>sorted(results, key=sort_key)\<close>: Python computes the key of every element first (a
  raise of the key function aborts the sort), then sorts stably by the keys; tuples compare
  lexicographically. \<open>sort_key\<close> of HOL is the stable insertion sort by a key.
\<close>

definition manga_reading_order_sort :: "detection list \<Rightarrow> error + detection list" where
  "manga_reading_order_sort results =
     (case collect sort_key_of results of Inl e \<Rightarrow> Inl e
      | Inr keys \<Rightarrow> Inr (map snd (sort_key fst (zip keys results))))"

section \<open>Paragraph aggregation\<close>

definition calculate_collective_bbox :: "item list \<Rightarrow> error + bbox option" where
  "calculate_collective_bbox paragraph_items =
     (if paragraph_items = [] then Inr None
      else
        let all_xs = concat (map (\<lambda>it. map fst (item_bbox it)) paragraph_items);
            all_ys = concat (map (\<lambda>it. map snd (item_bbox it)) paragraph_items)
        in (case py_min all_xs of Inl e \<Rightarrow> Inl e | Inr min_x \<Rightarrow>
           (case py_max all_xs of Inl e \<Rightarrow> Inl e | Inr max_x \<Rightarrow>
           (case py_min all_ys of Inl e \<Rightarrow> Inl e | Inr min_y \<Rightarrow>
           (case py_max all_ys of Inl e \<Rightarrow> Inl e | Inr max_y \<Rightarrow>
              Inr (Some [(min_x, min_y), (max_x, min_y), (max_x, max_y), (min_x, max_y)]))))))"

text \<open>\<open>' '.join(...)\<close>\<close>

fun join_space :: "string list \<Rightarrow> string" where
  "join_space [] = []"
| "join_space [s] = s"
| "join_space (s # t # ss) = s @ '' '' @ join_space (t # ss)"

text \<open>The key of \<open>paragraph_items.sort\<close>.\<close>

definition item_key :: "item \<Rightarrow> real \<times> real" where
  "item_key x = (center_y (item_props x), - center_x (item_props x))"

definition item_detection :: "item \<Rightarrow> detection" where
  "item_detection it = (item_bbox it, item_text it, item_score it)"

text \<open>
  Double precision (IEEE 754 binary64) for the mean score of line 242: a result is the
  exact result rounded to the nearest number with a significand of 53 bits, a tie going to
  the even significand. \<open>binade x\<close> is the exponent \<open>e\<close> with \<open>2^e \<le> |x| < 2^(e+1)\<close>, and the
  doubles of that binade are the multiples of \<open>2^(e-52)\<close>. Overflow and subnormal numbers
  are not modelled: scores and their sums are far from both.
\<close>

definition round_half_even :: "real \<Rightarrow> int" where
  "round_half_even q =
     (let f = \<lfloor>q\<rfloor>; r = q - of_int f
      in if r < 1 / 2 then f else if 1 / 2 < r then f + 1 else if even f then f else f + 1)"

definition pow2 :: "int \<Rightarrow> real" where
  "pow2 e = (if 0 \<le> e then 2 ^ nat e else 1 / 2 ^ nat (- e))"

definition binade :: "real \<Rightarrow> int" where
  "binade x = \<lfloor>log 2 \<bar>x\<bar>\<rfloor>"

definition round_double :: "real \<Rightarrow> real" where
  "round_double x =
     (if x = 0 then 0
      else let ulp = pow2 (binade x - 52) in of_int (round_half_even (x / ulp)) * ulp)"

definition float_add :: "real \<Rightarrow> real \<Rightarrow> real" where
  "float_add a b = round_double (a + b)"

text \<open>Python's \<open>/\<close> on a float and an int: the int is converted exactly, a zero divisor
  raises ZeroDivisionError.\<close>

definition float_div :: "real \<Rightarrow> real \<Rightarrow> error + real" where
  "float_div a b = (if b = 0 then Inl ZeroDivisionError else Inr (round_double (a / b)))"

text \<open>
  \<open>sum(xs)\<close> starts from the int 0 and adds the elements from left to right, each addition
  rounded. (CPython from 3.12 on carries a compensation term and adds it at the end; on the
  sums evaluated in this theory that gives the same double.)
\<close>

definition py_sum :: "real list \<Rightarrow> real" where
  "py_sum xs = fold (\<lambda>x acc. float_add acc x) xs 0"

text \<open>
  Lines 238 to 258 of the source: the closed cluster is sorted (stably, in place), reduced
  to text, collective bbox and mean score, and its members are copied without their
  properties. The sum of the scores is taken first; the division by
  \<open>len(paragraph_items)\<close> raises ZeroDivisionError at 0.
\<close>

definition make_paragraph :: "item list \<Rightarrow> error + paragraph_data" where
  "make_paragraph cluster =
     (let paragraph_items = sort_key item_key cluster;
          paragraph_text = join_space (map item_text paragraph_items)
      in (case calculate_collective_bbox paragraph_items of Inl e \<Rightarrow> Inl e
          | Inr collective_bbox \<Rightarrow>
             (case float_div (py_sum (map item_score paragraph_items))
                     (real (length paragraph_items)) of
                Inl e \<Rightarrow> Inl e
              | Inr avg_score \<Rightarrow>
                  let individual = map item_detection paragraph_items
                  in Inr \<lparr> para_text = paragraph_text, para_bbox = collective_bbox,
                            para_score = avg_score, item_count = length paragraph_items,
                            individual_items = individual \<rparr>)))"

section \<open>Paragraph building\<close>

text \<open>The body of the first loop of \<open>group_paragraphs\<close> (lines 196 to 204).\<close>

definition make_item :: "detection \<Rightarrow> error + item" where
  "make_item d =
     (case d of (bbox, text, score) \<Rightarrow>
        (case calculate_bbox_properties bbox of Inl e \<Rightarrow> Inl e
         | Inr props \<Rightarrow>
             Inr \<lparr> item_bbox = bbox, item_text = text, item_score = score,
                   item_props = props, item_used = False \<rparr>))"

text \<open>Lines 223 to 231: does the candidate merge with some member of the open cluster?\<close>

fun merges_with_any :: "real \<Rightarrow> item list \<Rightarrow> item \<Rightarrow> bool" where
  "merges_with_any max_distance_factor [] candidate_item = False"
| "merges_with_any max_distance_factor (para_item # rest) candidate_item =
     (if should_merge_bubbles (item_props para_item) (item_props candidate_item)
           max_distance_factor
      then True
      else merges_with_any max_distance_factor rest candidate_item)"

text \<open>
  Lines 219 to 236, one pass of \<open>for j, candidate_item in enumerate(items_with_props)\<close>.
  The body reads and writes only the element it visits and \<open>paragraph_items\<close>, so the pass
  is a recursion over the list that returns the list with the visited elements as they
  are after the pass, the grown \<open>paragraph_items\<close> and \<open>search_expanded\<close>. The members of
  \<open>paragraph_items\<close> are the dicts of \<open>items_with_props\<close> themselves; a member is marked
  used when it is appended and no key of it is written afterwards, so the model keeps the
  marked value in both lists.
\<close>

fun scan_candidates ::
  "real \<Rightarrow> item list \<Rightarrow> item list \<Rightarrow> bool \<Rightarrow> item list \<times> item list \<times> bool" where
  "scan_candidates max_distance_factor [] paragraph_items search_expanded =
     ([], paragraph_items, search_expanded)"
| "scan_candidates max_distance_factor (candidate_item # rest) paragraph_items search_expanded =
     (if item_used candidate_item then
        (case scan_candidates max_distance_factor rest paragraph_items search_expanded of
           (rest', paragraph_items', expanded') \<Rightarrow>
             (candidate_item # rest', paragraph_items', expanded'))
      else if merges_with_any max_distance_factor paragraph_items candidate_item then
        (let marked = candidate_item\<lparr>item_used := True\<rparr> in
         case scan_candidates max_distance_factor rest (paragraph_items @ [marked]) True of
           (rest', paragraph_items', expanded') \<Rightarrow>
             (marked # rest', paragraph_items', expanded'))
      else
        (case scan_candidates max_distance_factor rest paragraph_items search_expanded of
           (rest', paragraph_items', expanded') \<Rightarrow>
             (candidate_item # rest', paragraph_items', expanded')))"

text \<open>
  Lines 215 to 236, \<open>while search_expanded\<close>: a pass, and another one if the pass appended
  a member. The loop is not structural; a run that never leaves it has the value \<open>None\<close>.
\<close>

partial_function (option) grow_cluster ::
  "real \<Rightarrow> item list \<Rightarrow> item list \<Rightarrow> (item list \<times> item list) option" where
  "grow_cluster max_distance_factor items_with_props paragraph_items =
     (case scan_candidates max_distance_factor items_with_props paragraph_items False of
        (items', paragraph_items', search_expanded) \<Rightarrow>
          if search_expanded then grow_cluster max_distance_factor items' paragraph_items'
          else Some (items', paragraph_items'))"

text \<open>
  Lines 208 to 260, \<open>for i, current_item in enumerate(items_with_props)\<close>, as a recursion
  over the indices still to visit. \<open>group_paragraphs\<close> starts it with all the indices of
  the list, whose length no step changes, so \<open>items_with_props ! i\<close> is always in range.
\<close>

fun build_paragraphs ::
  "real \<Rightarrow> nat list \<Rightarrow> item list \<Rightarrow> paragraph_data list
     \<Rightarrow> (error + paragraph_data list) option" where
  "build_paragraphs max_distance_factor [] items_with_props paragraphs = Some (Inr paragraphs)"
| "build_paragraphs max_distance_factor (i # indices) items_with_props paragraphs =
     (let current_item = items_with_props ! i in
      if item_used current_item then
        build_paragraphs max_distance_factor indices items_with_props paragraphs
      else
        let marked = current_item\<lparr>item_used := True\<rparr>;
            items1 = items_with_props[i := marked]
        in (case grow_cluster max_distance_factor items1 [marked] of
              None \<Rightarrow> None
            | Some (items2, paragraph_items) \<Rightarrow>
                (case make_paragraph paragraph_items of
                   Inl e \<Rightarrow> Some (Inl e)
                 | Inr paragraph \<Rightarrow>
                     build_paragraphs max_distance_factor indices items2
                       (paragraphs @ [paragraph]))))"

text \<open>
  The result: \<open>None\<close> for a run that does not return, \<open>Some (Inl e)\<close> for a raise,
  \<open>Some (Inr paragraphs)\<close> for the returned list.
\<close>

definition group_paragraphs ::
  "detection list \<Rightarrow> real \<Rightarrow> (error + paragraph_data list) option" where
  "group_paragraphs results max_distance_factor =
     (if results = [] then Some (Inr [])
      else
        (case manga_reading_order_sort results of
           Inl e \<Rightarrow> Some (Inl e)
         | Inr sorted_results \<Rightarrow>
             (case collect make_item sorted_results of
                Inl e \<Rightarrow> Some (Inl e)
              | Inr items_with_props \<Rightarrow>
                  build_paragraphs max_distance_factor [0..<length items_with_props]
                    items_with_props [])))"

section \<open>The rectangle of a bbox whose coordinates need not be finite\<close>

text \<open>
  \<open>calculate_bbox_properties\<close> once more, on Python floats that may be \<open>inf\<close>, \<open>-inf\<close> or
  \<open>nan\<close>: a comparison with \<open>nan\<close> is false, \<open>inf - inf\<close> and \<open>inf + -inf\<close> are \<open>nan\<close>, and no
  float operation of the function raises. \<open>min\<close> keeps its current value unless the next
  element is smaller, \<open>max\<close> unless the next one is greater. \<open>a - b\<close> is \<open>a + (-b)\<close>. Finite
  results are not rounded, as in the rest of the theory. The dict that is returned is
  the list of its entries, in the order of the source.
\<close>

datatype float_value = Number real | PlusInfinity | MinusInfinity | NotANumber

fun float_less :: "float_value \<Rightarrow> float_value \<Rightarrow> bool" where
  "float_less (Number a) (Number b) = (a < b)"
| "float_less (Number a) PlusInfinity = True"
| "float_less MinusInfinity (Number b) = True"
| "float_less MinusInfinity PlusInfinity = True"
| "float_less _ _ = False"

fun float_plus :: "float_value \<Rightarrow> float_value \<Rightarrow> float_value" where
  "float_plus NotANumber _ = NotANumber"
| "float_plus _ NotANumber = NotANumber"
| "float_plus (Number a) (Number b) = Number (a + b)"
| "float_plus PlusInfinity MinusInfinity = NotANumber"
| "float_plus MinusInfinity PlusInfinity = NotANumber"
| "float_plus PlusInfinity _ = PlusInfinity"
| "float_plus _ PlusInfinity = PlusInfinity"
| "float_plus MinusInfinity _ = MinusInfinity"
| "float_plus _ MinusInfinity = MinusInfinity"

fun float_negate :: "float_value \<Rightarrow> float_value" where
  "float_negate (Number a) = Number (- a)"
| "float_negate PlusInfinity = MinusInfinity"
| "float_negate MinusInfinity = PlusInfinity"
| "float_negate NotANumber = NotANumber"

definition float_minus :: "float_value \<Rightarrow> float_value \<Rightarrow> float_value" where
  "float_minus a b = float_plus a (float_negate b)"

fun float_halve :: "float_value \<Rightarrow> float_value" where
  "float_halve (Number a) = Number (a / 2)"
| "float_halve v = v"

fun float_min :: "float_value list \<Rightarrow> error + float_value" where
  "float_min [] = Inl ValueError"
| "float_min (x # xs) = Inr (fold (\<lambda>item m. if float_less item m then item else m) xs x)"

fun float_max :: "float_value list \<Rightarrow> error + float_value" where
  "float_max [] = Inl ValueError"
| "float_max (x # xs) = Inr (fold (\<lambda>item m. if float_less m item then item else m) xs x)"

definition calculate_bbox_properties_float ::
  "(float_value \<times> float_value) list \<Rightarrow> error + (string \<times> float_value) list" where
  "calculate_bbox_properties_float bbox =
     (let xs = map fst bbox; ys = map snd bbox in
      (case float_min xs of Inl e \<Rightarrow> Inl e | Inr l \<Rightarrow>
      (case float_max xs of Inl e \<Rightarrow> Inl e | Inr r \<Rightarrow>
      (case float_min ys of Inl e \<Rightarrow> Inl e | Inr t \<Rightarrow>
      (case float_max ys of Inl e \<Rightarrow> Inl e | Inr b \<Rightarrow>
         Inr [(''center_x'', float_halve (float_plus l r)),
              (''center_y'', float_halve (float_plus t b)),
              (''left'', l), (''right'', r), (''top'', t), (''bottom'', b),
              (''width'', float_minus r l), (''height'', float_minus b t)])))))"

section \<open>The merge decision as the specification words it\<close>

text \<open>
  Section 4.2 and 4.3 of the specification, word for word: the two alignment tests, the
  relative distance (infinite when the average size is not positive) and the decision
  table, evaluated in order with the first match winning.
\<close>

definition spec_horizontally_aligned :: "bbox_props \<Rightarrow> bbox_props \<Rightarrow> real \<Rightarrow> bool" where
  "spec_horizontally_aligned r1 r2 tolerance =
     (max 0 (min (bottom_edge r1) (bottom_edge r2) - max (top_edge r1) (top_edge r2))
        > tolerance * min (height r1) (height r2))"

definition spec_vertically_aligned :: "bbox_props \<Rightarrow> bbox_props \<Rightarrow> real \<Rightarrow> bool" where
  "spec_vertically_aligned r1 r2 tolerance =
     (max 0 (min (right r1) (right r2) - max (left r1) (left r2))
        > tolerance * min (width r1) (width r2))"

definition spec_avg_size :: "bbox_props \<Rightarrow> bbox_props \<Rightarrow> real" where
  "spec_avg_size r1 r2 = ((width r1 + width r2) / 2 + (height r1 + height r2) / 2) / 2"

definition spec_relative_distance :: "bbox_props \<Rightarrow> bbox_props \<Rightarrow> pyfloat" where
  "spec_relative_distance r1 r2 =
     (if spec_avg_size r1 r2 > 0
      then Finite (sqrt ((center_x r1 - center_x r2)\<^sup>2 + (center_y r1 - center_y r2)\<^sup>2)
                     / spec_avg_size r1 r2)
      else PosInf)"

definition merge_decision_table :: "bbox_props \<Rightarrow> bbox_props \<Rightarrow> real \<Rightarrow> bool" where
  "merge_decision_table r1 r2 max_distance_factor =
     (if float_gt (spec_relative_distance r1 r2) max_distance_factor then False
      else if float_lt (spec_relative_distance r1 r2) (3 / 2)
              \<and> (spec_horizontally_aligned r1 r2 (3 / 10) \<or> spec_vertically_aligned r1 r2 (3 / 10))
        then True
      else if float_lt (spec_relative_distance r1 r2) (4 / 5) then True
      else False)"

section \<open>Invariants of the clustering loops\<close>

text \<open>The number of detections not yet marked used: what a pass of the inner loop can only
  decrease.\<close>

definition unvisited_count :: "item list \<Rightarrow> nat" where
  "unvisited_count items = length (filter (\<lambda>x. \<not> item_used x) items)"

text \<open>An element of \<open>items_with_props\<close> carries the properties of its own bbox.\<close>

definition item_consistent :: "item \<Rightarrow> bool" where
  "item_consistent x = (calculate_bbox_properties (item_bbox x) = Inr (item_props x))"

text \<open>An element after some steps of the loops: unchanged, or marked used when it was not
  (a mark is never taken back, nothing else is ever written).\<close>

definition marked_from :: "item \<Rightarrow> item \<Rightarrow> bool" where
  "marked_from a b = (b = a \<or> (\<not> item_used a \<and> b = a\<lparr>item_used := True\<rparr>))"

text \<open>
  The state \<open>(items', para')\<close> is reachable from \<open>(items, para)\<close> by the clustering loops:
  elements are only marked, the open cluster only grows at its end, each member appended
  was unused and is marked, and the members of the cluster together with the unused
  elements are the same multiset of detections before and after.
\<close>

definition cluster_extends :: "item list \<Rightarrow> item list \<Rightarrow> item list \<Rightarrow> item list \<Rightarrow> bool" where
  "cluster_extends items para items' para' =
     (list_all2 marked_from items items' \<and>
      (\<exists>added. para' = para @ added \<and>
         (\<forall>x\<in>set added. \<exists>y\<in>set items. \<not> item_used y \<and> x = y\<lparr>item_used := True\<rparr>)) \<and>
      mset (map item_detection para') + mset (map item_detection (filter (\<lambda>x. \<not> item_used x) items'))
        = mset (map item_detection para) + mset (map item_detection (filter (\<lambda>x. \<not> item_used x) items)) \<and>
      unvisited_count items' \<le> unvisited_count items)"

text \<open>A paragraph that \<open>make_paragraph\<close> returned for a non-empty cluster of consistent
  elements.\<close>

definition built_from :: "paragraph_data \<Rightarrow> bool" where
  "built_from p = (\<exists>its. its \<noteq> [] \<and> (\<forall>x\<in>set its. item_consistent x) \<and> make_paragraph its = Inr p)"

section \<open>Clusters as connected components\<close>






section \<open>Concrete inputs\<close>

text \<open>Scenario A of the specification (the scores are the float literals 0.9 and 0.8, that
  is the doubles nearest to 9/10 and 8/10), the paragraph that \<open>group_paragraphs\<close> returns
  for it, and the elements of \<open>items_with_props\<close> at the start of the first pass (the seed
  is marked).\<close>

definition scenario_A :: "detection list" where
  "scenario_A =
     [([(0, 0), (10, 0), (10, 10), (0, 10)], ''A'', round_double (9 / 10)),
      ([(12, 0), (22, 0), (22, 10), (12, 10)], ''B'', round_double (8 / 10))]"

definition scenario_A_paragraph :: paragraph_data where
  "scenario_A_paragraph =
     \<lparr> para_text = ''B A'',
       para_bbox = Some [(0, 0), (22, 0), (22, 10), (0, 10)],
       para_score = 1914029841632461 / 2251799813685248, item_count = 2,
       individual_items =
         [([(12, 0), (22, 0), (22, 10), (12, 10)], ''B'', round_double (8 / 10)),
          ([(0, 0), (10, 0), (10, 10), (0, 10)], ''A'', round_double (9 / 10))] \<rparr>"

definition scenario_A_items :: "item list" where
  "scenario_A_items =
     [\<lparr> item_bbox = [(12, 0), (22, 0), (22, 10), (12, 10)], item_text = ''B'',
        item_score = round_double (8 / 10),
        item_props = \<lparr> center_x = 17, center_y = 5, left = 12, right = 22, top_edge = 0,
                       bottom_edge = 10, width = 10, height = 10 \<rparr>,
        item_used = True \<rparr>,
      \<lparr> item_bbox = [(0, 0), (10, 0), (10, 10), (0, 10)], item_text = ''A'',
        item_score = round_double (9 / 10),
        item_props = \<lparr> center_x = 5, center_y = 5, left = 0, right = 10, top_edge = 0,
                       bottom_edge = 10, width = 10, height = 10 \<rparr>,
        item_used = False \<rparr>]"







section \<open>Properties of the merge decision\<close>

lemma calculate_distance_commute: "calculate_distance p2 p1 = calculate_distance p1 p2"
proof -
  have "(center_x p2 - center_x p1) * (center_x p2 - center_x p1)
      = (center_x p1 - center_x p2) * (center_x p1 - center_x p2)"
    by (simp add: algebra_simps)
  moreover have "(center_y p2 - center_y p1) * (center_y p2 - center_y p1)
      = (center_y p1 - center_y p2) * (center_y p1 - center_y p2)"
    by (simp add: algebra_simps)
  ultimately show ?thesis by (simp add: calculate_distance_def Let_def)
qed

lemma relative_distance_of_commute: "relative_distance_of p2 p1 = relative_distance_of p1 p2"
  by (simp add: relative_distance_of_def Let_def calculate_distance_commute add.commute)

lemma is_horizontally_aligned_commute:
  "is_horizontally_aligned p2 p1 t = is_horizontally_aligned p1 p2 t"
  by (simp add: is_horizontally_aligned_def Let_def min.commute max.commute)

lemma is_vertically_aligned_commute:
  "is_vertically_aligned p2 p1 t = is_vertically_aligned p1 p2 t"
  by (simp add: is_vertically_aligned_def Let_def min.commute max.commute)

lemma float_gt_div: "0 \<le> d \<Longrightarrow> 0 < a \<Longrightarrow> float_gt (Finite (sqrt d / a)) c = (c < 0 \<or> (c * a)\<^sup>2 < d)"
proof -
  assume d: "0 \<le> d" and a: "0 < a"
  have "(c < sqrt d / a) = (c * a < sqrt d)" using a by (simp add: pos_less_divide_eq)
  also have "\<dots> = (c < 0 \<or> (c * a)\<^sup>2 < d)"
  proof (cases "c < 0")
    case True
    then have "c * a < 0" using a by (simp add: mult_neg_pos)
    moreover have "0 \<le> sqrt d" using d by simp
    ultimately show ?thesis using True by linarith
  next
    case False
    then have ca: "0 \<le> c * a" using a by simp
    have "(c * a < sqrt d) = (sqrt ((c * a)\<^sup>2) < sqrt d)" using ca by simp
    also have "\<dots> = ((c * a)\<^sup>2 < d)" by (rule real_sqrt_less_iff)
    finally show ?thesis using False by simp
  qed
  finally show ?thesis by simp
qed

lemma float_lt_div: "0 \<le> d \<Longrightarrow> 0 < a \<Longrightarrow> float_lt (Finite (sqrt d / a)) c = (0 < c \<and> d < (c * a)\<^sup>2)"
proof -
  assume d: "0 \<le> d" and a: "0 < a"
  have "(sqrt d / a < c) = (sqrt d < c * a)" using a by (simp add: pos_divide_less_eq)
  also have "\<dots> = (0 < c \<and> d < (c * a)\<^sup>2)"
  proof (cases "0 < c")
    case True
    then have ca: "0 \<le> c * a" using a by simp
    have "(sqrt d < c * a) = (sqrt d < sqrt ((c * a)\<^sup>2))" using ca by simp
    also have "\<dots> = (d < (c * a)\<^sup>2)" by (rule real_sqrt_less_iff)
    finally show ?thesis using True by simp
  next
    case False
    then have "c * a \<le> 0" using a by (simp add: mult_le_0_iff)
    moreover have "0 \<le> sqrt d" using d by simp
    ultimately show ?thesis using False by linarith
  qed
  finally show ?thesis by simp
qed

text \<open>The merge decision without the square root, for evaluation on concrete rectangles.\<close>

lemma should_merge_bubbles_eval:
  "should_merge_bubbles p q m =
     (let a = ((width p + width q) / 2 + (height p + height q) / 2) / 2;
          d = (center_x p - center_x q) * (center_x p - center_x q)
            + (center_y p - center_y q) * (center_y p - center_y q)
      in 0 < a \<and> \<not> (m < 0 \<or> (m * a)\<^sup>2 < d) \<and>
         ((d < (3 / 2 * a)\<^sup>2 \<and>
            (is_horizontally_aligned p q default_tolerance \<or> is_vertically_aligned p q default_tolerance))
          \<or> d < (4 / 5 * a)\<^sup>2))"
proof -
  define a where "a = ((width p + width q) / 2 + (height p + height q) / 2) / 2"
  define d where "d = (center_x p - center_x q) * (center_x p - center_x q)
            + (center_y p - center_y q) * (center_y p - center_y q)"
  have d0: "0 \<le> d" unfolding d_def by simp
  have rd: "relative_distance_of p q = (if 0 < a then Finite (sqrt d / a) else PosInf)"
    by (simp add: relative_distance_of_def calculate_distance_def Let_def a_def d_def)
  show ?thesis
  proof (cases "0 < a")
    case True
    have g: "float_gt (Finite (sqrt d / a)) m = (m < 0 \<or> (m * a)\<^sup>2 < d)"
      by (rule float_gt_div [OF d0 True])
    have l1: "float_lt (Finite (sqrt d / a)) (3 / 2) = (d < (3 / 2 * a)\<^sup>2)"
      using float_lt_div [OF d0 True, of "3 / 2"] by simp
    have l2: "float_lt (Finite (sqrt d / a)) (4 / 5) = (d < (4 / 5 * a)\<^sup>2)"
      using float_lt_div [OF d0 True, of "4 / 5"] by simp
    have "should_merge_bubbles p q m =
        (if m < 0 \<or> (m * a)\<^sup>2 < d then False
         else if d < (3 / 2 * a)\<^sup>2 \<and> (is_horizontally_aligned p q default_tolerance
                \<or> is_vertically_aligned p q default_tolerance) then True
         else if d < (4 / 5 * a)\<^sup>2 then True else False)"
      unfolding should_merge_bubbles_def Let_def rd using True by (simp only: if_True g l1 l2)
    then show ?thesis
      unfolding Let_def a_def [symmetric] d_def [symmetric] using True by auto
  next
    case False
    have "should_merge_bubbles p q m = False"
      unfolding should_merge_bubbles_def Let_def rd using False by simp
    then show ?thesis
      unfolding Let_def a_def [symmetric] d_def [symmetric] using False by simp
  qed
qed

text \<open>
  C9. The merge decision is commutative: \<open>should_merge_bubbles\<close> gives the same verdict
  for \<open>(p1, p2)\<close> and for \<open>(p2, p1)\<close>, for every pair of rectangle property records and
  every \<open>max_distance_factor\<close>.
\<close>

theorem should_merge_bubbles_commutative:
  "should_merge_bubbles p1 p2 max_distance_factor = should_merge_bubbles p2 p1 max_distance_factor"
  unfolding should_merge_bubbles_def
  by (simp only: relative_distance_of_commute [of p1 p2] is_horizontally_aligned_commute [of p1 p2]
      is_vertically_aligned_commute [of p1 p2])

lemma spec_relative_distance_eq: "spec_relative_distance r1 r2 = relative_distance_of r1 r2"
  by (simp add: spec_relative_distance_def spec_avg_size_def relative_distance_of_def
      calculate_distance_def Let_def power2_eq_square)

lemma spec_horizontally_aligned_eq:
  "spec_horizontally_aligned r1 r2 t = is_horizontally_aligned r1 r2 t"
  by (simp add: spec_horizontally_aligned_def is_horizontally_aligned_def Let_def mult.commute)

lemma spec_vertically_aligned_eq:
  "spec_vertically_aligned r1 r2 t = is_vertically_aligned r1 r2 t"
  by (simp add: spec_vertically_aligned_def is_vertically_aligned_def Let_def mult.commute)

lemma zero_size_relative_distance:
  "width r1 = 0 \<Longrightarrow> height r1 = 0 \<Longrightarrow> width r2 = 0 \<Longrightarrow> height r2 = 0
     \<Longrightarrow> relative_distance_of r1 r2 = PosInf"
  by (simp add: relative_distance_of_def Let_def)

text \<open>
  C2. For every pair of rectangle property records and every \<open>max_distance_factor\<close>, the
  verdict of \<open>should_merge_bubbles\<close> is the decision table of the specification, read in
  order with the first match winning, over the relative distance that is the euclidean
  distance of the centres divided by the average size when that is positive and infinite
  otherwise. In particular two rectangles of width and height zero never merge, wherever
  their centres are.
\<close>

theorem should_merge_bubbles_decision_table:
  "should_merge_bubbles r1 r2 max_distance_factor = merge_decision_table r1 r2 max_distance_factor
   \<and> (width r1 = 0 \<and> height r1 = 0 \<and> width r2 = 0 \<and> height r2 = 0
        \<longrightarrow> \<not> should_merge_bubbles r1 r2 max_distance_factor)"
proof
  show "should_merge_bubbles r1 r2 max_distance_factor
          = merge_decision_table r1 r2 max_distance_factor"
    by (auto simp add: should_merge_bubbles_def merge_decision_table_def Let_def
        spec_relative_distance_eq spec_horizontally_aligned_eq spec_vertically_aligned_eq
        default_tolerance_def)
next
  show "width r1 = 0 \<and> height r1 = 0 \<and> width r2 = 0 \<and> height r2 = 0
          \<longrightarrow> \<not> should_merge_bubbles r1 r2 max_distance_factor"
    by (simp add: should_merge_bubbles_def Let_def zero_size_relative_distance)
qed

theorem should_merge_bubbles_decision_table_witness:
  "(let z = \<lparr> center_x = 5, center_y = 5, left = 5, right = 5, top_edge = 5, bottom_edge = 5,
              width = 0, height = 0 \<rparr>
    in should_merge_bubbles z z 2 = merge_decision_table z z 2
       \<and> width z = 0 \<and> height z = 0 \<and> \<not> should_merge_bubbles z z 2)"
  using should_merge_bubbles_decision_table
    [of "\<lparr> center_x = 5, center_y = 5, left = 5, right = 5, top_edge = 5, bottom_edge = 5,
           width = 0, height = 0 \<rparr>"
        "\<lparr> center_x = 5, center_y = 5, left = 5, right = 5, top_edge = 5, bottom_edge = 5,
           width = 0, height = 0 \<rparr>" 2]
  by (auto simp add: Let_def)

section \<open>Double precision\<close>

lemma pow2_powr: "pow2 e = 2 powr (of_int e)"
proof (cases "0 \<le> e")
  case True
  have "(2::real) powr (real (nat e)) = 2 ^ nat e" by (rule powr_realpow) simp
  moreover have "real (nat e) = of_int e" using True by simp
  ultimately show ?thesis using True by (simp add: pow2_def)
next
  case False
  have "(2::real) powr (real (nat (- e))) = 2 ^ nat (- e)" by (rule powr_realpow) simp
  moreover have "of_int e = - real (nat (- e))" using False by simp
  moreover have "(2::real) powr (- real (nat (- e))) = inverse (2 powr (real (nat (- e))))"
    by (rule powr_minus)
  ultimately have "(2::real) powr (of_int e) = inverse (2 ^ nat (- e))" by (simp only:)
  then show ?thesis using False by (simp add: pow2_def inverse_eq_divide)
qed

lemma pow2_pos: "0 < pow2 e"
  by (simp add: pow2_def)

lemma binade_eq:
  assumes "pow2 e \<le> \<bar>x\<bar>" and "\<bar>x\<bar> < pow2 (e + 1)"
  shows "binade x = e"
proof -
  have pos: "0 < \<bar>x\<bar>" using assms(1) pow2_pos [of e] by linarith
  have a: "2 powr (of_int e) \<le> \<bar>x\<bar>" using assms(1) by (simp only: pow2_powr)
  have b: "\<bar>x\<bar> < 2 powr (of_int e + 1)"
    using assms(2) by (simp only: pow2_powr of_int_add of_int_1)
  have "of_int e \<le> log 2 \<bar>x\<bar>"
    using a pos le_log_iff [of 2 "\<bar>x\<bar>" "of_int e"] by simp
  moreover have "log 2 \<bar>x\<bar> < of_int e + 1"
    using b pos log_less_iff [of 2 "\<bar>x\<bar>" "of_int e + 1"] by simp
  ultimately show ?thesis unfolding binade_def by (rule floor_unique)
qed

text \<open>The rounding of a number whose binade is known, for evaluation.\<close>

lemma round_double_binade:
  assumes "pow2 e \<le> \<bar>x\<bar>" and "\<bar>x\<bar> < pow2 (e + 1)"
    and "x / pow2 (e - 52) = q" and "round_half_even q = n"
    and "of_int n * pow2 (e - 52) = y"
  shows "round_double x = y"
proof -
  have "x \<noteq> 0" using assms(1) pow2_pos [of e] by auto
  then have "round_double x = of_int (round_half_even (x / pow2 (e - 52))) * pow2 (e - 52)"
    by (simp only: round_double_def Let_def binade_eq [OF assms(1,2)] if_False)
  then show ?thesis using assms(3,4,5) by (simp only:)
qed

lemmas rounding_simps = pow2_def round_half_even_def Let_def

lemma double_0_9: "round_double (9 / 10) = 8106479329266893 / 9007199254740992"
  by (rule round_double_binade [where e = "- 1" and q = "81064793292668928 / 10"
        and n = 8106479329266893]) (simp_all add: rounding_simps)

lemma double_0_8: "round_double (8 / 10) = 3602879701896397 / 4503599627370496"
  by (rule round_double_binade [where e = "- 1" and q = "72057594037927936 / 10"
        and n = 7205759403792794]) (simp_all add: rounding_simps)

lemma double_0_85: "round_double (85 / 100) = 7656119366529843 / 9007199254740992"
  by (rule round_double_binade [where e = "- 1" and q = "765611936652984320 / 100"
        and n = 7656119366529843]) (simp_all add: rounding_simps)

lemma double_0_8_fixed:
  "round_double (3602879701896397 / 4503599627370496) = 3602879701896397 / 4503599627370496"
  by (rule round_double_binade [where e = "- 1" and q = 7205759403792794
        and n = 7205759403792794]) (simp_all add: rounding_simps)

lemma double_sum_0_8_0_9:
  "round_double (15312238733059687 / 9007199254740992) = 1914029841632461 / 1125899906842624"
  by (rule round_double_binade [where e = 0 and q = "15312238733059687 / 2"
        and n = 7656119366529844]) (simp_all add: rounding_simps)

lemma double_mean_fixed:
  "round_double (1914029841632461 / 2251799813685248) = 1914029841632461 / 2251799813685248"
  by (rule round_double_binade [where e = "- 1" and q = 7656119366529844
        and n = 7656119366529844]) (simp_all add: rounding_simps)

lemma double_1: "round_double 1 = 1"
  by (rule round_double_binade [where e = 0 and q = 4503599627370496
        and n = 4503599627370496]) (simp_all add: rounding_simps)

lemma double_2: "round_double 2 = 2"
  by (rule round_double_binade [where e = 1 and q = 4503599627370496
        and n = 4503599627370496]) (simp_all add: rounding_simps)

lemma double_3: "round_double 3 = 3"
  by (rule round_double_binade [where e = 1 and q = 6755399441055744
        and n = 6755399441055744]) (simp_all add: rounding_simps)

lemma double_4: "round_double 4 = 4"
  by (rule round_double_binade [where e = 2 and q = 4503599627370496
        and n = 4503599627370496]) (simp_all add: rounding_simps)

lemma double_5: "round_double 5 = 5"
  by (rule round_double_binade [where e = 2 and q = 5629499534213120
        and n = 5629499534213120]) (simp_all add: rounding_simps)

lemma double_6: "round_double 6 = 6"
  by (rule round_double_binade [where e = 2 and q = 6755399441055744
        and n = 6755399441055744]) (simp_all add: rounding_simps)

lemmas double_simps = double_0_8_fixed double_sum_0_8_0_9 double_mean_fixed
  double_1 double_2 double_3 double_4 double_5 double_6

section \<open>Runs on the concrete inputs\<close>

lemmas run_simps = group_paragraphs_def manga_reading_order_sort_def sort_key_of_def
      calculate_bbox_properties_def make_item_def grow_cluster.simps should_merge_bubbles_eval
      is_horizontally_aligned_def is_vertically_aligned_def default_tolerance_def Let_def
      make_paragraph_def item_key_def item_detection_def calculate_collective_bbox_def upt_rec
      power2_eq_square py_sum_def float_add_def float_div_def double_simps

lemma scenario_A_run: "group_paragraphs scenario_A 2 = Some (Inr [scenario_A_paragraph])"
  unfolding scenario_A_def scenario_A_paragraph_def double_0_8 double_0_9
  by (simp add: run_simps)

lemma scenario_A_scan:
  "scan_candidates 2 scenario_A_items [hd scenario_A_items] False
     = ([hd scenario_A_items, (scenario_A_items ! 1)\<lparr>item_used := True\<rparr>],
        [hd scenario_A_items, (scenario_A_items ! 1)\<lparr>item_used := True\<rparr>], True)"
  by (simp add: scenario_A_items_def should_merge_bubbles_eval is_horizontally_aligned_def
      is_vertically_aligned_def default_tolerance_def Let_def power2_eq_square)



section \<open>Scenario A\<close>

text \<open>
  C5, as amended. For the detections D1 = ([(0,0),(10,0),(10,10),(0,10)], "A", 0.9) and
  D2 = ([(12,0),(22,0),(22,10),(12,10)], "B", 0.8), \<open>group_paragraphs\<close> (with the default
  \<open>max_distance_factor\<close> 2.0) returns exactly one paragraph: text "B A", the rectangle with
  corners (0,0) and (22,10) as bbox, \<open>item_count\<close> 2, and as score the double mean of the
  doubles 0.8 and 0.9, which is 1914029841632461 / 2^51 = 0.8500000000000001.
\<close>

theorem group_paragraphs_scenario_A:
  "group_paragraphs
     [([(0, 0), (10, 0), (10, 10), (0, 10)], ''A'', round_double (9 / 10)),
      ([(12, 0), (22, 0), (22, 10), (12, 10)], ''B'', round_double (8 / 10))] 2
   = Some (Inr [\<lparr> para_text = ''B A'',
                   para_bbox = Some [(0, 0), (22, 0), (22, 10), (0, 10)],
                   para_score = 1914029841632461 / 2251799813685248, item_count = 2,
                   individual_items =
                     [([(12, 0), (22, 0), (22, 10), (12, 10)], ''B'', round_double (8 / 10)),
                      ([(0, 0), (10, 0), (10, 10), (0, 10)], ''A'', round_double (9 / 10))] \<rparr>])"
  using scenario_A_run by (simp only: scenario_A_def scenario_A_paragraph_def)

text \<open>
  C5 as stated fails in the score: the mean that line 242 computes is neither the number
  85/100 nor the double 0.85, but the next double above it.
\<close>

theorem scenario_A_score_counterexample:
  "group_paragraphs scenario_A 2 = Some (Inr [scenario_A_paragraph])
   \<and> para_score scenario_A_paragraph \<noteq> 85 / 100
   \<and> para_score scenario_A_paragraph \<noteq> round_double (85 / 100)
   \<and> para_score scenario_A_paragraph - round_double (85 / 100) = 1 / 9007199254740992"
proof -
  have s: "para_score scenario_A_paragraph = 1914029841632461 / 2251799813685248"
    by (simp add: scenario_A_paragraph_def)
  show ?thesis unfolding s double_0_85 using scenario_A_run by simp
qed

section \<open>The clustering loops\<close>

lemma marked_from_refl: "marked_from a a"
  by (simp add: marked_from_def)

lemma marked_from_trans: "marked_from a b \<Longrightarrow> marked_from b c \<Longrightarrow> marked_from a c"
  by (auto simp add: marked_from_def)

lemma item_detection_mark [simp]: "item_detection (x\<lparr>item_used := u\<rparr>) = item_detection x"
  by (simp add: item_detection_def)

lemma cluster_extends_refl: "cluster_extends items para items para"
  unfolding cluster_extends_def
  by (simp add: list_all2_refl marked_from_refl)

lemma list_all2_marked_set:
  "list_all2 marked_from xs ys \<Longrightarrow> y \<in> set ys \<Longrightarrow> \<exists>x\<in>set xs. marked_from x y"
  by (induction rule: list_all2_induct) auto

lemma cluster_extends_trans:
  assumes "cluster_extends i0 p0 i1 p1" and "cluster_extends i1 p1 i2 p2"
  shows "cluster_extends i0 p0 i2 p2"
proof -
  from assms obtain a1 a2 where
    l1: "list_all2 marked_from i0 i1" and l2: "list_all2 marked_from i1 i2"
    and p1: "p1 = p0 @ a1" and p2: "p2 = p1 @ a2"
    and a1: "\<forall>x\<in>set a1. \<exists>y\<in>set i0. \<not> item_used y \<and> x = y\<lparr>item_used := True\<rparr>"
    and a2: "\<forall>x\<in>set a2. \<exists>y\<in>set i1. \<not> item_used y \<and> x = y\<lparr>item_used := True\<rparr>"
    and m1: "mset (map item_detection p1) + mset (map item_detection (filter (\<lambda>x. \<not> item_used x) i1))
        = mset (map item_detection p0) + mset (map item_detection (filter (\<lambda>x. \<not> item_used x) i0))"
    and m2: "mset (map item_detection p2) + mset (map item_detection (filter (\<lambda>x. \<not> item_used x) i2))
        = mset (map item_detection p1) + mset (map item_detection (filter (\<lambda>x. \<not> item_used x) i1))"
    and c1: "unvisited_count i1 \<le> unvisited_count i0" and c2: "unvisited_count i2 \<le> unvisited_count i1"
    unfolding cluster_extends_def by blast
  have l: "list_all2 marked_from i0 i2"
    using l1 l2 by (rule list_all2_trans [rotated]) (rule marked_from_trans)
  have a: "\<forall>x\<in>set (a1 @ a2). \<exists>y\<in>set i0. \<not> item_used y \<and> x = y\<lparr>item_used := True\<rparr>"
  proof
    fix x assume "x \<in> set (a1 @ a2)"
    then consider "x \<in> set a1" | "x \<in> set a2" by auto
    then show "\<exists>y\<in>set i0. \<not> item_used y \<and> x = y\<lparr>item_used := True\<rparr>"
    proof cases
      case 1 then show ?thesis using a1 by blast
    next
      case 2
      then obtain y where y: "y \<in> set i1" "\<not> item_used y" "x = y\<lparr>item_used := True\<rparr>"
        using a2 by blast
      then obtain y0 where y0: "y0 \<in> set i0" "marked_from y0 y"
        using list_all2_marked_set [OF l1] by blast
      with y have "y = y0" by (auto simp add: marked_from_def)
      with y y0 show ?thesis by blast
    qed
  qed
  show ?thesis
    unfolding cluster_extends_def
    using l a p1 p2 m1 m2 c1 c2 by (intro conjI exI [of _ "a1 @ a2"]) simp_all
qed

lemma scan_candidates_extends:
  "scan_candidates m items para e = (items', para', e') \<Longrightarrow>
     cluster_extends items para items' para'
     \<and> (e' = (e \<or> unvisited_count items' < unvisited_count items))"
proof (induction items arbitrary: para e items' para' e')
  case Nil
  then show ?case by (simp add: cluster_extends_refl)
next
  case (Cons c rest)
  show ?case
  proof (cases "\<not> item_used c \<and> merges_with_any m para c")
    case True
    obtain r' p' x' where rec: "scan_candidates m rest (para @ [c\<lparr>item_used := True\<rparr>]) True = (r', p', x')"
      by (cases "scan_candidates m rest (para @ [c\<lparr>item_used := True\<rparr>]) True") auto
    from Cons.prems True rec have res: "items' = c\<lparr>item_used := True\<rparr> # r'" "para' = p'" "e' = x'"
      by (simp_all add: Let_def)
    from Cons.IH [OF rec] have ih: "cluster_extends rest (para @ [c\<lparr>item_used := True\<rparr>]) r' p'"
      and x': "x'" by auto
    from ih obtain added where
      l: "list_all2 marked_from rest r'" and p: "p' = (para @ [c\<lparr>item_used := True\<rparr>]) @ added"
      and a: "\<forall>x\<in>set added. \<exists>y\<in>set rest. \<not> item_used y \<and> x = y\<lparr>item_used := True\<rparr>"
      and ms: "mset (map item_detection p') + mset (map item_detection (filter (\<lambda>x. \<not> item_used x) r'))
        = mset (map item_detection (para @ [c\<lparr>item_used := True\<rparr>])) + mset (map item_detection (filter (\<lambda>x. \<not> item_used x) rest))"
      and cnt: "unvisited_count r' \<le> unvisited_count rest"
      unfolding cluster_extends_def by blast
    have "cluster_extends (c # rest) para items' para'"
      unfolding cluster_extends_def res
    proof (intro conjI)
      show "list_all2 marked_from (c # rest) (c\<lparr>item_used := True\<rparr> # r')"
        using l True by (simp add: marked_from_def)
      show "\<exists>added. p' = para @ added \<and>
         (\<forall>x\<in>set added. \<exists>y\<in>set (c # rest). \<not> item_used y \<and> x = y\<lparr>item_used := True\<rparr>)"
        using p a True by (intro exI [of _ "c\<lparr>item_used := True\<rparr> # added"]) auto
      show "mset (map item_detection p') + mset (map item_detection (filter (\<lambda>x. \<not> item_used x) (c\<lparr>item_used := True\<rparr> # r')))
        = mset (map item_detection para) + mset (map item_detection (filter (\<lambda>x. \<not> item_used x) (c # rest)))"
        using ms True by simp
      show "unvisited_count (c\<lparr>item_used := True\<rparr> # r') \<le> unvisited_count (c # rest)"
        using cnt True by (simp add: unvisited_count_def)
    qed
    moreover have "unvisited_count items' < unvisited_count (c # rest)"
      using cnt True res by (simp add: unvisited_count_def)
    ultimately show ?thesis using x' res by simp
  next
    case False
    obtain r' p' x' where rec: "scan_candidates m rest para e = (r', p', x')"
      by (cases "scan_candidates m rest para e") auto
    from Cons.prems False rec have res: "items' = c # r'" "para' = p'" "e' = x'"
      by (auto simp add: Let_def split: if_splits)
    from Cons.IH [OF rec] have ih: "cluster_extends rest para r' p'"
      and x': "x' = (e \<or> unvisited_count r' < unvisited_count rest)" by auto
    from ih obtain added where
      l: "list_all2 marked_from rest r'" and p: "p' = para @ added"
      and a: "\<forall>x\<in>set added. \<exists>y\<in>set rest. \<not> item_used y \<and> x = y\<lparr>item_used := True\<rparr>"
      and ms: "mset (map item_detection p') + mset (map item_detection (filter (\<lambda>x. \<not> item_used x) r'))
        = mset (map item_detection para) + mset (map item_detection (filter (\<lambda>x. \<not> item_used x) rest))"
      and cnt: "unvisited_count r' \<le> unvisited_count rest"
      unfolding cluster_extends_def by blast
    have "cluster_extends (c # rest) para items' para'"
      unfolding cluster_extends_def res
    proof (intro conjI)
      show "list_all2 marked_from (c # rest) (c # r')"
        using l by (simp add: marked_from_def)
      show "\<exists>added. p' = para @ added \<and>
         (\<forall>x\<in>set added. \<exists>y\<in>set (c # rest). \<not> item_used y \<and> x = y\<lparr>item_used := True\<rparr>)"
        using p a by (intro exI [of _ added]) auto
      show "mset (map item_detection p') + mset (map item_detection (filter (\<lambda>x. \<not> item_used x) (c # r')))
        = mset (map item_detection para) + mset (map item_detection (filter (\<lambda>x. \<not> item_used x) (c # rest)))"
        using ms by simp
      show "unvisited_count (c # r') \<le> unvisited_count (c # rest)"
        using cnt by (simp add: unvisited_count_def)
    qed
    moreover have "(unvisited_count items' < unvisited_count (c # rest)) = (unvisited_count r' < unvisited_count rest)"
      using res by (simp add: unvisited_count_def)
    ultimately show ?thesis using x' res by simp
  qed
qed

lemma grow_cluster_returns:
  "\<exists>items' para'. grow_cluster m items para = Some (items', para')
      \<and> cluster_extends items para items' para'"
proof (induction "unvisited_count items" arbitrary: items para rule: less_induct)
  case less
  obtain i1 p1 e1 where sc: "scan_candidates m items para False = (i1, p1, e1)"
    by (cases "scan_candidates m items para False") auto
  from scan_candidates_extends [OF sc]
  have ext: "cluster_extends items para i1 p1"
    and e1: "e1 = (unvisited_count i1 < unvisited_count items)" by auto
  show ?case
  proof (cases e1)
    case True
    with e1 have "unvisited_count i1 < unvisited_count items" by simp
    from less [OF this, of p1] obtain i2 p2 where
      g: "grow_cluster m i1 p1 = Some (i2, p2)" and ext2: "cluster_extends i1 p1 i2 p2"
      by blast
    have "grow_cluster m items para = Some (i2, p2)"
      by (subst grow_cluster.simps) (simp add: sc True g)
    with cluster_extends_trans [OF ext ext2] show ?thesis by blast
  next
    case False
    have "grow_cluster m items para = Some (i1, p1)"
      by (subst grow_cluster.simps) (simp add: sc False)
    with ext show ?thesis by blast
  qed
qed

section \<open>Minimum, maximum and the rectangle of a bbox\<close>

lemma fold_min_le: "fold min xs (x::real) \<le> x \<and> (\<forall>y\<in>set xs. fold min xs x \<le> y)"
proof (induction xs arbitrary: x)
  case Nil then show ?case by simp
next
  case (Cons a xs)
  from Cons [of "min a x"] show ?case by (auto simp add: min_le_iff_disj)
qed

lemma fold_max_ge: "x \<le> fold max xs (x::real) \<and> (\<forall>y\<in>set xs. y \<le> fold max xs x)"
proof (induction xs arbitrary: x)
  case Nil then show ?case by simp
next
  case (Cons a xs)
  from Cons [of "max a x"] show ?case by (auto simp add: le_max_iff_disj)
qed

lemma py_min_lower: "py_min xs = Inr m \<Longrightarrow> y \<in> set xs \<Longrightarrow> m \<le> y"
  using fold_min_le by (cases xs) auto

lemma py_max_upper: "py_max xs = Inr m \<Longrightarrow> y \<in> set xs \<Longrightarrow> y \<le> m"
  using fold_max_ge by (cases xs) auto

lemma py_min_Inl: "(py_min xs = Inl e) = (xs = [] \<and> e = ValueError)"
  by (cases xs) auto

lemma py_max_Inl: "(py_max xs = Inl e) = (xs = [] \<and> e = ValueError)"
  by (cases xs) auto

lemma py_min_ex: "xs \<noteq> [] \<Longrightarrow> \<exists>m. py_min xs = Inr m"
  by (cases xs) auto

lemma py_max_ex: "xs \<noteq> [] \<Longrightarrow> \<exists>m. py_max xs = Inr m"
  by (cases xs) auto

lemma calculate_bbox_properties_Inl:
  "(calculate_bbox_properties b = Inl e) = (b = [] \<and> e = ValueError)"
  by (cases b) (auto simp add: calculate_bbox_properties_def Let_def)

lemma calculate_bbox_properties_ex:
  "b \<noteq> [] \<Longrightarrow> \<exists>p. calculate_bbox_properties b = Inr p"
  by (cases b) (auto simp add: calculate_bbox_properties_def Let_def)

lemma item_consistent_nonempty: "item_consistent x \<Longrightarrow> item_bbox x \<noteq> []"
  by (auto simp add: item_consistent_def calculate_bbox_properties_def)

section \<open>The aggregation of a cluster\<close>

lemma calculate_collective_bbox_ex:
  assumes "its \<noteq> []" and "\<forall>x\<in>set its. item_bbox x \<noteq> []"
  shows "\<exists>mnx mxx mny mxy. calculate_collective_bbox its
           = Inr (Some [(mnx, mny), (mxx, mny), (mxx, mxy), (mnx, mxy)])
         \<and> (\<forall>x\<in>set its. \<forall>pt\<in>set (item_bbox x).
               mnx \<le> fst pt \<and> fst pt \<le> mxx \<and> mny \<le> snd pt \<and> snd pt \<le> mxy)"
proof -
  let ?xs = "concat (map (\<lambda>it. map fst (item_bbox it)) its)"
  let ?ys = "concat (map (\<lambda>it. map snd (item_bbox it)) its)"
  from assms obtain x0 where "x0 \<in> set its" "item_bbox x0 \<noteq> []" by (cases its) auto
  then have nx: "?xs \<noteq> []" and ny: "?ys \<noteq> []" by auto
  from py_min_ex [OF nx] py_max_ex [OF nx] py_min_ex [OF ny] py_max_ex [OF ny]
  obtain mnx mxx mny mxy where m: "py_min ?xs = Inr mnx" "py_max ?xs = Inr mxx"
    "py_min ?ys = Inr mny" "py_max ?ys = Inr mxy" by blast
  have "calculate_collective_bbox its = Inr (Some [(mnx, mny), (mxx, mny), (mxx, mxy), (mnx, mxy)])"
    using assms(1) m by (simp add: calculate_collective_bbox_def Let_def)
  moreover have "\<forall>x\<in>set its. \<forall>pt\<in>set (item_bbox x).
               mnx \<le> fst pt \<and> fst pt \<le> mxx \<and> mny \<le> snd pt \<and> snd pt \<le> mxy"
  proof (intro ballI)
    fix x pt assume x: "x \<in> set its" and pt: "pt \<in> set (item_bbox x)"
    then have "fst pt \<in> set ?xs" "snd pt \<in> set ?ys" by auto
    then show "mnx \<le> fst pt \<and> fst pt \<le> mxx \<and> mny \<le> snd pt \<and> snd pt \<le> mxy"
      using m py_min_lower py_max_upper by blast
  qed
  ultimately show ?thesis by blast
qed

lemma make_paragraph_ex:
  assumes "its \<noteq> []" and "\<forall>x\<in>set its. item_bbox x \<noteq> []"
  shows "\<exists>p. make_paragraph its = Inr p"
proof -
  have ne: "sort_key item_key its \<noteq> []" using assms(1) by (metis length_sort list.size(3) length_0_conv)
  have "\<forall>x\<in>set (sort_key item_key its). item_bbox x \<noteq> []" using assms(2) by simp
  from calculate_collective_bbox_ex [OF ne this] obtain b where
    "calculate_collective_bbox (sort_key item_key its) = Inr b" by blast
  then show ?thesis using ne assms(1) by (simp add: make_paragraph_def float_div_def Let_def)
qed

lemma make_paragraph_items:
  "make_paragraph its = Inr p \<Longrightarrow>
     individual_items p = map item_detection (sort_key item_key its)
   \<and> para_text p = join_space (map item_text (sort_key item_key its))
   \<and> item_count p = length its
   \<and> calculate_collective_bbox (sort_key item_key its) = Inr (para_bbox p)
   \<and> its \<noteq> []"
  by (auto simp add: make_paragraph_def float_div_def Let_def split: sum.splits if_splits)

lemma make_paragraph_mset:
  "make_paragraph its = Inr p \<Longrightarrow> mset (individual_items p) = mset (map item_detection its)"
  by (simp add: make_paragraph_items)

section \<open>The loop over the seeds\<close>

lemma cluster_extends_nth:
  assumes "cluster_extends items para items' para'" and "k < length items"
  shows "marked_from (items ! k) (items' ! k)"
  using assms by (auto simp add: cluster_extends_def dest: list_all2_nthD)

lemma cluster_extends_length:
  "cluster_extends items para items' para' \<Longrightarrow> length items' = length items"
  by (auto simp add: cluster_extends_def dest: list_all2_lengthD)

lemma cluster_extends_consistent:
  assumes "cluster_extends items para items' para'"
    and "\<forall>x\<in>set items. item_consistent x" and "\<forall>x\<in>set para. item_consistent x"
  shows "(\<forall>x\<in>set items'. item_consistent x) \<and> (\<forall>x\<in>set para'. item_consistent x)"
proof
  from assms(1) have l: "list_all2 marked_from items items'" by (simp add: cluster_extends_def)
  show "\<forall>x\<in>set items'. item_consistent x"
  proof
    fix x assume "x \<in> set items'"
    from list_all2_marked_set [OF l this] obtain y where "y \<in> set items" "marked_from y x" by blast
    with assms(2) show "item_consistent x" by (auto simp add: marked_from_def item_consistent_def)
  qed
  from assms(1) obtain added where p: "para' = para @ added"
    and a: "\<forall>x\<in>set added. \<exists>y\<in>set items. \<not> item_used y \<and> x = y\<lparr>item_used := True\<rparr>"
    unfolding cluster_extends_def by blast
  show "\<forall>x\<in>set para'. item_consistent x"
    using p a assms(2,3) by (auto simp add: item_consistent_def)
qed

lemma unused_update:
  assumes "i < length items" and "\<not> item_used (items ! i)"
  shows "mset (map item_detection (filter (\<lambda>x. \<not> item_used x) (items[i := (items ! i)\<lparr>item_used := True\<rparr>])))
           + {#item_detection (items ! i)#}
         = mset (map item_detection (filter (\<lambda>x. \<not> item_used x) items))"
  using assms
proof (induction items arbitrary: i)
  case Nil then show ?case by simp
next
  case (Cons a items)
  then show ?case by (cases i) auto
qed

lemma build_paragraphs_returns:
  assumes "set indices \<subseteq> {..<length items}"
    and "\<forall>x\<in>set items. item_consistent x"
  shows "\<exists>ps. build_paragraphs m indices items paragraphs = Some (Inr ps)"
  using assms
proof (induction indices arbitrary: items paragraphs)
  case Nil then show ?case by simp
next
  case (Cons i indices)
  then have i: "i < length items" and sub: "set indices \<subseteq> {..<length items}" by auto
  show ?case
  proof (cases "item_used (items ! i)")
    case True
    with Cons.IH [OF sub Cons.prems(2)] show ?thesis by (simp add: Let_def)
  next
    case False
    let ?mk = "(items ! i)\<lparr>item_used := True\<rparr>"
    let ?i1 = "items[i := ?mk]"
    from grow_cluster_returns [of m ?i1 "[?mk]"] obtain i2 para where
      g: "grow_cluster m ?i1 [?mk] = Some (i2, para)" and ext: "cluster_extends ?i1 [?mk] i2 para"
      by blast
    have c_it: "item_consistent (items ! i)" using Cons.prems(2) i by simp
    then have c_mk: "item_consistent ?mk" by (simp add: item_consistent_def)
    have c1: "\<forall>x\<in>set ?i1. item_consistent x"
      using Cons.prems(2) c_mk by (auto dest!: set_update_subset_insert [THEN subsetD])
    from cluster_extends_consistent [OF ext c1] c_mk
    have c2: "\<forall>x\<in>set i2. item_consistent x" and cp: "\<forall>x\<in>set para. item_consistent x" by auto
    from ext have "para \<noteq> []" by (auto simp add: cluster_extends_def)
    from make_paragraph_ex [OF this] cp obtain p where mp: "make_paragraph para = Inr p"
      using item_consistent_nonempty by blast
    have len: "length i2 = length items" using cluster_extends_length [OF ext] by simp
    from Cons.IH [of i2 "paragraphs @ [p]"] sub len c2
    obtain ps where "build_paragraphs m indices i2 (paragraphs @ [p]) = Some (Inr ps)" by auto
    then show ?thesis using False g mp by (simp add: Let_def)
  qed
qed

lemma build_paragraphs_mset:
  assumes "build_paragraphs m indices items paragraphs = Some (Inr ps)"
    and "set indices \<subseteq> {..<length items}"
    and "\<forall>k<length items. k \<notin> set indices \<longrightarrow> item_used (items ! k)"
  shows "mset (concat (map individual_items ps))
           = mset (concat (map individual_items paragraphs))
             + mset (map item_detection (filter (\<lambda>x. \<not> item_used x) items))"
  using assms
proof (induction indices arbitrary: items paragraphs)
  case Nil
  then have "\<forall>x\<in>set items. item_used x" by (auto simp add: in_set_conv_nth)
  then have "filter (\<lambda>x. \<not> item_used x) items = []" by (simp add: filter_empty_conv)
  with Nil show ?case by simp
next
  case (Cons i indices)
  then have i: "i < length items" and sub: "set indices \<subseteq> {..<length items}" by auto
  show ?case
  proof (cases "item_used (items ! i)")
    case True
    with Cons.prems(1) have b: "build_paragraphs m indices items paragraphs = Some (Inr ps)"
      by (simp add: Let_def)
    have "\<forall>k<length items. k \<notin> set indices \<longrightarrow> item_used (items ! k)"
      using Cons.prems(3) True by auto
    from Cons.IH [OF b sub this] show ?thesis .
  next
    case False
    let ?mk = "(items ! i)\<lparr>item_used := True\<rparr>"
    let ?i1 = "items[i := ?mk]"
    from grow_cluster_returns [of m ?i1 "[?mk]"] obtain i2 para where
      g: "grow_cluster m ?i1 [?mk] = Some (i2, para)" and ext: "cluster_extends ?i1 [?mk] i2 para"
      by blast
    from Cons.prems(1) False g obtain p where mp: "make_paragraph para = Inr p"
      and b: "build_paragraphs m indices i2 (paragraphs @ [p]) = Some (Inr ps)"
      by (auto simp add: Let_def split: sum.splits)
    have len: "length i2 = length items" using cluster_extends_length [OF ext] by simp
    have used2: "\<forall>k<length i2. k \<notin> set indices \<longrightarrow> item_used (i2 ! k)"
    proof (intro allI impI)
      fix k assume k: "k < length i2" and "k \<notin> set indices"
      then have u1: "item_used (?i1 ! k)"
        using Cons.prems(3) len i by (cases "k = i") auto
      from cluster_extends_nth [OF ext, of k] k len
      have "marked_from (?i1 ! k) (i2 ! k)" by simp
      with u1 show "item_used (i2 ! k)" by (auto simp add: marked_from_def)
    qed
    from sub len have sub2: "set indices \<subseteq> {..<length i2}" by simp
    from Cons.IH [OF b sub2 used2]
    have e1: "mset (concat (map individual_items ps))
           = mset (concat (map individual_items paragraphs)) + (mset (individual_items p)
             + mset (map item_detection (filter (\<lambda>x. \<not> item_used x) i2)))" by simp
    have e2: "mset (individual_items p) = mset (map item_detection para)"
      by (rule make_paragraph_mset [OF mp])
    from ext have e3: "mset (map item_detection para) + mset (map item_detection (filter (\<lambda>x. \<not> item_used x) i2))
        = mset (map item_detection [?mk]) + mset (map item_detection (filter (\<lambda>x. \<not> item_used x) ?i1))"
      by (simp add: cluster_extends_def)
    have e4: "mset (map item_detection [?mk]) + mset (map item_detection (filter (\<lambda>x. \<not> item_used x) ?i1))
         = mset (map item_detection (filter (\<lambda>x. \<not> item_used x) items))"
      using unused_update [OF i False] by (simp add: add.commute)
    show ?thesis unfolding e1 e2 e3 e4 ..
  qed
qed

lemma build_paragraphs_members:
  assumes "build_paragraphs m indices items paragraphs = Some (Inr ps)"
    and "set indices \<subseteq> {..<length items}"
    and "\<forall>x\<in>set items. item_consistent x"
    and "\<forall>p\<in>set paragraphs. built_from p"
  shows "\<forall>p\<in>set ps. built_from p"
  using assms
proof (induction indices arbitrary: items paragraphs)
  case Nil then show ?case by simp
next
  case (Cons i indices)
  then have i: "i < length items" and sub: "set indices \<subseteq> {..<length items}" by auto
  show ?case
  proof (cases "item_used (items ! i)")
    case True
    with Cons.prems(1) have b: "build_paragraphs m indices items paragraphs = Some (Inr ps)"
      by (simp add: Let_def)
    from Cons.IH [OF b sub Cons.prems(3,4)] show ?thesis .
  next
    case False
    let ?mk = "(items ! i)\<lparr>item_used := True\<rparr>"
    let ?i1 = "items[i := ?mk]"
    from grow_cluster_returns [of m ?i1 "[?mk]"] obtain i2 para where
      g: "grow_cluster m ?i1 [?mk] = Some (i2, para)" and ext: "cluster_extends ?i1 [?mk] i2 para"
      by blast
    from Cons.prems(1) False g obtain p where mp: "make_paragraph para = Inr p"
      and b: "build_paragraphs m indices i2 (paragraphs @ [p]) = Some (Inr ps)"
      by (auto simp add: Let_def split: sum.splits)
    have c_it: "item_consistent (items ! i)" using Cons.prems(3) i by simp
    then have c_mk: "item_consistent ?mk" by (simp add: item_consistent_def)
    have c1: "\<forall>x\<in>set ?i1. item_consistent x"
      using Cons.prems(3) c_mk by (auto dest!: set_update_subset_insert [THEN subsetD])
    from cluster_extends_consistent [OF ext c1] c_mk
    have c2: "\<forall>x\<in>set i2. item_consistent x" and cp: "\<forall>x\<in>set para. item_consistent x" by auto
    from ext have "para \<noteq> []" by (auto simp add: cluster_extends_def)
    with cp mp have "built_from p" unfolding built_from_def by blast
    with Cons.prems(4) have bp: "\<forall>q\<in>set (paragraphs @ [p]). built_from q" by auto
    have len: "length i2 = length items" using cluster_extends_length [OF ext] by simp
    from sub len have sub2: "set indices \<subseteq> {..<length i2}" by simp
    from Cons.IH [OF b sub2 c2 bp] show ?thesis .
  qed
qed

section \<open>Raising maps and the reading-order sort\<close>

lemma collect_Inr_map: "collect f xs = Inr ys \<Longrightarrow> map f xs = map Inr ys"
  by (induction xs arbitrary: ys) (auto split: sum.splits)

lemma collect_Inl: "collect f xs = Inl e \<Longrightarrow> \<exists>x\<in>set xs. f x = Inl e"
  by (induction xs) (auto split: sum.splits)

lemma collect_ex: "\<forall>x\<in>set xs. \<exists>y. f x = Inr y \<Longrightarrow> \<exists>ys. collect f xs = Inr ys"
  by (induction xs) (auto split: sum.splits)

lemma collect_first_error:
  "x \<in> set xs \<Longrightarrow> f x = Inl e \<Longrightarrow> \<forall>y\<in>set xs. \<forall>e'. f y = Inl e' \<longrightarrow> e' = e
     \<Longrightarrow> collect f xs = Inl e"
proof (induction xs)
  case Nil
  then show ?case by simp
next
  case (Cons a xs)
  show ?case
  proof (cases "f a")
    case (Inl e')
    with Cons.prems(3) have "e' = e" by simp
    with Inl show ?thesis by simp
  next
    case (Inr y)
    with Cons.prems(1,2) have "x \<in> set xs" by auto
    from Cons.IH [OF this Cons.prems(2)] Cons.prems(3) have "collect f xs = Inl e" by simp
    with Inr show ?thesis by simp
  qed
qed

lemma sort_key_of_Inl: "(sort_key_of d = Inl e) = (fst d = [] \<and> e = ValueError)"
proof (cases d)
  case (fields b t sc)
  show ?thesis
    using calculate_bbox_properties_Inl [of b e] calculate_bbox_properties_ex [of b]
    by (cases "calculate_bbox_properties b") (auto simp add: fields sort_key_of_def)
qed


lemma insort_key_map:
  "insort_key f (g x) (map g xs) = map g (insort_key (\<lambda>y. f (g y)) x xs)"
  by (induction xs) simp_all

lemma sort_key_map: "sort_key f (map g xs) = map g (sort_key (\<lambda>y. f (g y)) xs)"
  by (induction xs) (simp_all add: insort_key_map)

lemma manga_reading_order_sort_eq:
  assumes "\<forall>d\<in>set results. fst d \<noteq> []"
  shows "manga_reading_order_sort results
           = Inr (sort_key (\<lambda>d. projr (sort_key_of d)) results)"
proof -
  let ?K = "\<lambda>d. projr (sort_key_of d)"
  have "\<forall>d\<in>set results. \<exists>k. sort_key_of d = Inr k"
  proof
    fix d assume "d \<in> set results"
    with assms have "fst d \<noteq> []" by simp
    then show "\<exists>k. sort_key_of d = Inr k"
      using sort_key_of_Inl [of d] by (cases "sort_key_of d") auto
  qed
  from collect_ex [OF this] obtain keys where c: "collect sort_key_of results = Inr keys" by blast
  from collect_Inr_map [OF c] have "map projr (map sort_key_of results) = map projr (map Inr keys)"
    by simp
  then have keys: "keys = map ?K results" by (simp add: comp_def)
  have z: "zip keys results = map (\<lambda>d. (?K d, d)) results"
    unfolding keys by (induction results) simp_all
  have "map snd (sort_key fst (zip keys results)) = sort_key ?K results"
    unfolding z sort_key_map by (simp add: comp_def)
  then show ?thesis using c by (simp add: manga_reading_order_sort_def)
qed

lemma manga_reading_order_sort_error:
  assumes "d \<in> set results" and "fst d = []"
  shows "manga_reading_order_sort results = Inl ValueError"
proof -
  have "sort_key_of d = Inl ValueError" using assms(2) by (simp add: sort_key_of_Inl)
  from collect_first_error [of d results sort_key_of ValueError] assms(1) this
  have "collect sort_key_of results = Inl ValueError" by (simp add: sort_key_of_Inl)
  then show ?thesis by (simp add: manga_reading_order_sort_def)
qed

section \<open>The run of \<open>group_paragraphs\<close>\<close>


lemma make_item_Inr:
  assumes "fst d \<noteq> []"
  shows "\<exists>it. make_item d = Inr it \<and> item_detection it = d \<and> item_consistent it \<and> \<not> item_used it"
proof (cases d)
  case (fields b t sc)
  with assms have "b \<noteq> []" by simp
  from calculate_bbox_properties_ex [OF this] obtain p where "calculate_bbox_properties b = Inr p"
    by blast
  then show ?thesis
    by (simp add: fields make_item_def item_detection_def item_consistent_def)
qed

lemma collect_make_item:
  assumes "\<forall>d\<in>set ds. fst d \<noteq> []"
  shows "\<exists>items. collect make_item ds = Inr items \<and> map item_detection items = ds
           \<and> (\<forall>x\<in>set items. item_consistent x \<and> \<not> item_used x)"
  using assms
proof (induction ds)
  case Nil
  then show ?case by simp
next
  case (Cons d ds)
  then obtain items where i: "collect make_item ds = Inr items" "map item_detection items = ds"
    "\<forall>x\<in>set items. item_consistent x \<and> \<not> item_used x" by auto
  from Cons.prems make_item_Inr [of d] obtain it where
    "make_item d = Inr it" "item_detection it = d" "item_consistent it" "\<not> item_used it" by auto
  with i show ?case by simp
qed

lemma group_paragraphs_run:
  assumes "results \<noteq> []" and "\<forall>d\<in>set results. fst d \<noteq> []"
  shows "\<exists>items. map item_detection items = sort_key (\<lambda>d. projr (sort_key_of d)) results
           \<and> (\<forall>x\<in>set items. item_consistent x \<and> \<not> item_used x)
           \<and> group_paragraphs results m = build_paragraphs m [0..<length items] items []"
proof -
  let ?s = "sort_key (\<lambda>d. projr (sort_key_of d)) results"
  have "\<forall>d\<in>set ?s. fst d \<noteq> []" using assms(2) by simp
  from collect_make_item [OF this] obtain items where
    i: "collect make_item ?s = Inr items" "map item_detection items = ?s"
    "\<forall>x\<in>set items. item_consistent x \<and> \<not> item_used x" by blast
  have "group_paragraphs results m = build_paragraphs m [0..<length items] items []"
    using assms(1) i(1) by (simp add: group_paragraphs_def manga_reading_order_sort_eq [OF assms(2)])
  with i show ?thesis by blast
qed

lemma group_paragraphs_error:
  assumes "d \<in> set results" and "fst d = []"
  shows "group_paragraphs results m = Some (Inl ValueError)"
proof -
  from assms(1) have "results \<noteq> []" by auto
  then show ?thesis
    by (simp add: group_paragraphs_def manga_reading_order_sort_error [OF assms])
qed

lemma group_paragraphs_ok:
  assumes "\<forall>d\<in>set results. fst d \<noteq> []"
  shows "\<exists>ps. group_paragraphs results m = Some (Inr ps)
           \<and> mset (concat (map individual_items ps)) = mset results
           \<and> (\<forall>p\<in>set ps. built_from p)"
proof (cases "results = []")
  case True
  then show ?thesis by (simp add: group_paragraphs_def)
next
  case False
  from group_paragraphs_run [OF False assms, of m] obtain items where
    m: "map item_detection items = sort_key (\<lambda>d. projr (sort_key_of d)) results"
    and c: "\<forall>x\<in>set items. item_consistent x \<and> \<not> item_used x"
    and g: "group_paragraphs results m = build_paragraphs m [0..<length items] items []" by blast
  have sub: "set [0..<length items] \<subseteq> {..<length items}" by auto
  have cons: "\<forall>x\<in>set items. item_consistent x" using c by simp
  from build_paragraphs_returns [OF sub cons, of m "[]"] obtain ps where
    b: "build_paragraphs m [0..<length items] items [] = Some (Inr ps)" by blast
  have u: "\<forall>k<length items. k \<notin> set [0..<length items] \<longrightarrow> item_used (items ! k)" by simp
  have "filter (\<lambda>x. \<not> item_used x) items = items" using c by (simp add: filter_id_conv)
  with build_paragraphs_mset [OF b sub u]
  have "mset (concat (map individual_items ps)) = mset (map item_detection items)" by simp
  also have "\<dots> = mset results" unfolding m by simp
  finally have ms: "mset (concat (map individual_items ps)) = mset results" .
  have "\<forall>p\<in>set ps. built_from p"
    by (rule build_paragraphs_members [OF b sub cons]) simp
  with g b ms show ?thesis by simp
qed

lemma group_paragraphs_Inr_nonempty:
  assumes "group_paragraphs results m = Some (Inr ps)"
  shows "\<forall>d\<in>set results. fst d \<noteq> []"
proof (rule ccontr)
  assume "\<not> (\<forall>d\<in>set results. fst d \<noteq> [])"
  then obtain d where "d \<in> set results" "fst d = []" by blast
  from group_paragraphs_error [OF this, of m] assms show False by simp
qed

lemma group_paragraphs_built:
  assumes "group_paragraphs results m = Some (Inr ps)" and "p \<in> set ps"
  shows "built_from p"
  using group_paragraphs_ok [OF group_paragraphs_Inr_nonempty [OF assms(1)], of m] assms by auto

section \<open>Partition, containment and reading order of the paragraphs\<close>

text \<open>
  C1. For every input detection list whose bboxes are all non-empty, \<open>group_paragraphs\<close>
  returns, and the \<open>individual_items\<close> of the returned paragraphs, taken together as a
  multiset, are exactly the input detections: each input detection (bbox, text, score) is
  in exactly one paragraph, exactly once. (An input with an empty bbox is the only one that
  makes \<open>group_paragraphs\<close> raise, a ValueError, and then no paragraph is returned.)
\<close>

theorem group_paragraphs_partition: "if (\<exists>d\<in>set results. fst d = [])
    then group_paragraphs results m = Some (Inl ValueError)
    else (\<exists>ps. group_paragraphs results m = Some (Inr ps)
            \<and> mset (concat (map individual_items ps)) = mset results)"
proof (cases "\<exists>d\<in>set results. fst d = []")
  case True
  then show ?thesis using group_paragraphs_error by auto
next
  case False
  then have "\<forall>d\<in>set results. fst d \<noteq> []" by simp
  from group_paragraphs_ok [OF this, of m] False show ?thesis by auto
qed

theorem group_paragraphs_partition_witness: "\<not> (\<exists>d\<in>set scenario_A. fst d = [])
   \<and> (\<exists>ps. group_paragraphs scenario_A 2 = Some (Inr ps)
         \<and> mset (concat (map individual_items ps)) = mset scenario_A)"
  using group_paragraphs_partition [of scenario_A 2] by (simp add: scenario_A_def)



text \<open>
  C7. For every input detection list and every paragraph that \<open>group_paragraphs\<close> returns,
  two consecutive entries of its \<open>individual_items\<close> are non-decreasing in the \<open>center_y\<close>
  of the rectangles derived from their bboxes, and when their \<open>center_y\<close> are equal they
  are non-increasing in \<open>center_x\<close>.
\<close>

theorem paragraph_items_in_reading_order:
  assumes "group_paragraphs results m = Some (Inr ps)" and "p \<in> set ps"
    and "Suc i < length (individual_items p)"
  shows "\<exists>r1 r2. calculate_bbox_properties (fst (individual_items p ! i)) = Inr r1
           \<and> calculate_bbox_properties (fst (individual_items p ! Suc i)) = Inr r2
           \<and> center_y r1 \<le> center_y r2
           \<and> (center_y r1 = center_y r2 \<longrightarrow> center_x r2 \<le> center_x r1)"
proof -
  from group_paragraphs_built [OF assms(1,2)] obtain its where its: "its \<noteq> []"
    "\<forall>x\<in>set its. item_consistent x" "make_paragraph its = Inr p"
    unfolding built_from_def by blast
  let ?s = "sort_key item_key its"
  from make_paragraph_items [OF its(3)]
  have ind: "individual_items p = map item_detection ?s" by simp
  with assms(3) have len: "Suc i < length ?s" by simp
  then have i: "i < length ?s" by simp
  have "sorted (map item_key ?s)" by (rule sorted_sort_key)
  then have "map item_key ?s ! i \<le> map item_key ?s ! Suc i"
    using len by (simp add: sorted_iff_nth_Suc del: nth_map)
  then have k: "item_key (?s ! i) \<le> item_key (?s ! Suc i)" using len i by simp
  have "?s ! i \<in> set ?s" "?s ! Suc i \<in> set ?s" using len i by (simp_all del: set_sort)
  then have c: "item_consistent (?s ! i)" "item_consistent (?s ! Suc i)" using its(2) by simp_all
  have f1: "fst (individual_items p ! i) = item_bbox (?s ! i)"
    and f2: "fst (individual_items p ! Suc i) = item_bbox (?s ! Suc i)"
    unfolding ind using len i by (simp_all add: item_detection_def)
  show ?thesis
    unfolding f1 f2 using c k
    by (auto simp add: item_consistent_def item_key_def)
qed

theorem paragraph_items_in_reading_order_witness: "group_paragraphs scenario_A 2 = Some (Inr [scenario_A_paragraph])
   \<and> scenario_A_paragraph \<in> set [scenario_A_paragraph]
   \<and> Suc 0 < length (individual_items scenario_A_paragraph)
   \<and> (\<exists>r1 r2. calculate_bbox_properties (fst (individual_items scenario_A_paragraph ! 0)) = Inr r1
           \<and> calculate_bbox_properties (fst (individual_items scenario_A_paragraph ! Suc 0)) = Inr r2
           \<and> center_y r1 \<le> center_y r2
           \<and> (center_y r1 = center_y r2 \<longrightarrow> center_x r2 \<le> center_x r1))"
proof -
  have l: "Suc 0 < length (individual_items scenario_A_paragraph)"
    by (simp add: scenario_A_paragraph_def)
  have p: "scenario_A_paragraph \<in> set [scenario_A_paragraph]" by simp
  from paragraph_items_in_reading_order [OF scenario_A_run p l] scenario_A_run p l show ?thesis by blast
qed

section \<open>The reading-order sort\<close>




section \<open>Grouping the flattened result again\<close>

























text \<open>What a paragraph owes to its members alone.\<close>

lemma py_min_Min: "xs \<noteq> [] \<Longrightarrow> py_min xs = Inr (Min (set xs))"
proof (cases xs)
  case Nil
  assume "xs \<noteq> []"
  with Nil show ?thesis by simp
next
  case (Cons a list)
  show ?thesis unfolding Cons py_min.simps Min.set_eq_fold ..
qed

lemma py_max_Max: "xs \<noteq> [] \<Longrightarrow> py_max xs = Inr (Max (set xs))"
proof (cases xs)
  case Nil
  assume "xs \<noteq> []"
  with Nil show ?thesis by simp
next
  case (Cons a list)
  show ?thesis unfolding Cons py_max.simps Max.set_eq_fold ..
qed













section \<open>Malformed bboxes\<close>

lemma float_min_Number:
  "float_min (map Number xs) = map_sum id Number (py_min xs)"
proof (cases xs)
  case Nil
  then show ?thesis by simp
next
  case (Cons a list)
  have "fold (\<lambda>item m. if float_less item m then item else m) (map Number ys) (Number x)
          = Number (fold min ys x)" for ys x
    by (induction ys arbitrary: x) (simp_all add: min_def not_less [symmetric] less_imp_le)
  then show ?thesis by (simp add: Cons)
qed

lemma float_max_Number:
  "float_max (map Number xs) = map_sum id Number (py_max xs)"
proof (cases xs)
  case Nil
  then show ?thesis by simp
next
  case (Cons a list)
  have "fold (\<lambda>item m. if float_less m item then item else m) (map Number ys) (Number x)
          = Number (fold max ys x)" for ys x
    by (induction ys arbitrary: x) (simp_all add: max_def not_less [symmetric] less_imp_le)
  then show ?thesis by (simp add: Cons)
qed

lemma calculate_bbox_properties_float_finite:
  "calculate_bbox_properties_float (map (\<lambda>pt. (Number (fst pt), Number (snd pt))) b)
     = map_sum id
         (\<lambda>p. [(''center_x'', Number (center_x p)), (''center_y'', Number (center_y p)),
               (''left'', Number (left p)), (''right'', Number (right p)),
               (''top'', Number (top_edge p)), (''bottom'', Number (bottom_edge p)),
               (''width'', Number (width p)), (''height'', Number (height p))])
         (calculate_bbox_properties b)"
proof -
  have x: "map fst (map (\<lambda>pt. (Number (fst pt), Number (snd pt))) b) = map Number (map fst b)"
    and y: "map snd (map (\<lambda>pt. (Number (fst pt), Number (snd pt))) b) = map Number (map snd b)"
    by simp_all
  show ?thesis
  proof (cases b)
    case Nil
    then show ?thesis
      by (simp add: calculate_bbox_properties_float_def calculate_bbox_properties_def)
  next
    case (Cons pt list)
    then have nx: "map fst b \<noteq> []" and ny: "map snd b \<noteq> []" by simp_all
    show ?thesis
      unfolding calculate_bbox_properties_float_def calculate_bbox_properties_def Let_def x y
        float_min_Number float_max_Number
        py_min_Min [OF nx] py_max_Max [OF nx] py_min_Min [OF ny] py_max_Max [OF ny]
      by (simp add: float_minus_def)
  qed
qed

lemma calculate_bbox_properties_float_returns:
  "(calculate_bbox_properties_float b = Inl e) = (b = [] \<and> e = ValueError)"
  by (cases b) (auto simp add: calculate_bbox_properties_float_def Let_def)

text \<open>
  C8, as amended. Neither \<open>calculate_bbox_properties\<close> nor \<open>group_paragraphs\<close> validates a
  bbox, and the source has no ValidationError. For a bbox of finite coordinates: the empty
  list raises the ValueError of \<open>min\<close>, in the middle of the derivation; every non-empty
  list of points, of four points or not, gets the bounding rectangle of its points (left
  and right the least and the greatest x, top and bottom the least and the greatest y,
  the centre their midpoints, width and height their differences). \<open>group_paragraphs\<close>
  returns paragraphs that partition the input when every bbox is non-empty, and raises
  ValueError when some bbox is empty. A non-empty bbox with \<open>inf\<close>, \<open>-inf\<close> or \<open>nan\<close> among
  its coordinates is not rejected either: \<open>calculate_bbox_properties\<close> returns a dict for it.
\<close>

theorem calculate_bbox_properties_unvalidated:
  "(b = [] \<longrightarrow> calculate_bbox_properties b = Inl ValueError)
   \<and> (b \<noteq> [] \<longrightarrow> calculate_bbox_properties b =
         Inr \<lparr> center_x = (Min (fst ` set b) + Max (fst ` set b)) / 2,
               center_y = (Min (snd ` set b) + Max (snd ` set b)) / 2,
               left = Min (fst ` set b), right = Max (fst ` set b),
               top_edge = Min (snd ` set b), bottom_edge = Max (snd ` set b),
               width = Max (fst ` set b) - Min (fst ` set b),
               height = Max (snd ` set b) - Min (snd ` set b) \<rparr>)
   \<and> ((\<forall>d\<in>set results. fst d \<noteq> []) \<longrightarrow>
         (\<exists>ps. group_paragraphs results m = Some (Inr ps)
            \<and> mset (concat (map individual_items ps)) = mset results))
   \<and> ((\<exists>d\<in>set results. fst d = []) \<longrightarrow> group_paragraphs results m = Some (Inl ValueError))
   \<and> (fb \<noteq> [] \<longrightarrow> (\<exists>fp. calculate_bbox_properties_float fb = Inr fp))"
proof (intro conjI impI)
  assume "b = []"
  then show "calculate_bbox_properties b = Inl ValueError"
    by (simp add: calculate_bbox_properties_def)
next
  assume ne: "b \<noteq> []"
  then have nx: "map fst b \<noteq> []" and ny: "map snd b \<noteq> []" by simp_all
  show "calculate_bbox_properties b =
         Inr \<lparr> center_x = (Min (fst ` set b) + Max (fst ` set b)) / 2,
               center_y = (Min (snd ` set b) + Max (snd ` set b)) / 2,
               left = Min (fst ` set b), right = Max (fst ` set b),
               top_edge = Min (snd ` set b), bottom_edge = Max (snd ` set b),
               width = Max (fst ` set b) - Min (fst ` set b),
               height = Max (snd ` set b) - Min (snd ` set b) \<rparr>"
    by (simp add: calculate_bbox_properties_def Let_def py_min_Min [OF nx] py_max_Max [OF nx]
        py_min_Min [OF ny] py_max_Max [OF ny])
next
  assume "\<forall>d\<in>set results. fst d \<noteq> []"
  from group_paragraphs_ok [OF this, of m]
  show "\<exists>ps. group_paragraphs results m = Some (Inr ps)
            \<and> mset (concat (map individual_items ps)) = mset results" by blast
next
  assume "\<exists>d\<in>set results. fst d = []"
  then obtain d where "d \<in> set results" "fst d = []" by blast
  then show "group_paragraphs results m = Some (Inl ValueError)"
    by (rule group_paragraphs_error)
next
  assume "fb \<noteq> []"
  then show "\<exists>fp. calculate_bbox_properties_float fb = Inr fp"
    using calculate_bbox_properties_float_returns [of fb]
    by (cases "calculate_bbox_properties_float fb") auto
qed

theorem calculate_bbox_properties_unvalidated_witness:
  "calculate_bbox_properties [] = Inl ValueError
   \<and> group_paragraphs [([], ''A'', 1)] 2 = Some (Inl ValueError)
   \<and> calculate_bbox_properties [(0, 0), (1, 0), (1, 1)]
       = Inr \<lparr> center_x = 1 / 2, center_y = 1 / 2, left = 0, right = 1,
               top_edge = 0, bottom_edge = 1, width = 1, height = 1 \<rparr>
   \<and> (\<exists>ps. group_paragraphs [([(0, 0), (1, 0), (1, 1)], ''A'', 1)] 2 = Some (Inr ps)
          \<and> mset (concat (map individual_items ps)) = mset [([(0, 0), (1, 0), (1, 1)], ''A'', 1)])
   \<and> (\<exists>fp. calculate_bbox_properties_float
               [(Number 0, Number 0), (PlusInfinity, Number 0), (NotANumber, Number 1)] = Inr fp)"
  using calculate_bbox_properties_unvalidated [of "[]" "[([], ''A'', 1)]" 2
      "[(Number 0, Number 0), (PlusInfinity, Number 0), (NotANumber, Number 1)]"]
    calculate_bbox_properties_unvalidated
      [of "[(0, 0), (1, 0), (1, 1)]" "[([(0, 0), (1, 0), (1, 1)], ''A'', 1)]" 2
      "[(Number 0, Number 0), (PlusInfinity, Number 0), (NotANumber, Number 1)]"]
  by simp

text \<open>
  C8 as stated fails: a bbox of three points is not rejected, \<open>calculate_bbox_properties\<close>
  returns its rectangle and \<open>group_paragraphs\<close> returns a paragraph for it; and a bbox with
  an infinite coordinate, or with one that is not a number, is not rejected either.
\<close>

theorem malformed_bbox_counterexample: "length [(0, 0), (1, 0), (1, 1 :: real)] \<noteq> 4
   \<and> calculate_bbox_properties [(0, 0), (1, 0), (1, 1)]
       = Inr \<lparr> center_x = 1 / 2, center_y = 1 / 2, left = 0, right = 1,
               top_edge = 0, bottom_edge = 1, width = 1, height = 1 \<rparr>
   \<and> group_paragraphs [([(0, 0), (1, 0), (1, 1)], ''A'', 1)] 2
       = Some (Inr [\<lparr> para_text = ''A'',
                       para_bbox = Some [(0, 0), (1, 0), (1, 1), (0, 1)],
                       para_score = 1, item_count = 1,
                       individual_items = [([(0, 0), (1, 0), (1, 1)], ''A'', 1)] \<rparr>])
   \<and> calculate_bbox_properties_float
        [(Number 0, Number 0), (PlusInfinity, Number 0), (PlusInfinity, Number 1),
         (Number 0, Number 1)]
       = Inr [(''center_x'', PlusInfinity), (''center_y'', Number (1 / 2)),
              (''left'', Number 0), (''right'', PlusInfinity), (''top'', Number 0),
              (''bottom'', Number 1), (''width'', PlusInfinity), (''height'', Number 1)]
   \<and> calculate_bbox_properties_float
        [(NotANumber, Number 0), (Number 1, Number 0), (Number 1, Number 1),
         (Number 0, Number 1)]
       = Inr [(''center_x'', NotANumber), (''center_y'', Number (1 / 2)),
              (''left'', NotANumber), (''right'', NotANumber), (''top'', Number 0),
              (''bottom'', Number 1), (''width'', NotANumber), (''height'', Number 1)]"
  by (simp add: run_simps calculate_bbox_properties_float_def float_minus_def)

section \<open>Termination\<close>

text \<open>
  C10. For every input detection list \<open>group_paragraphs\<close> terminates (it returns or raises);
  from every state the inner fixed-point loop terminates; and every pass of that loop
  either reports an expansion, and then has strictly fewer unvisited detections after it
  than before, or reports none, and then is the last pass. A pass only marks detections
  that were not marked, appends exactly those to the cluster, and never unmarks one, so a
  detection is visited at most once.
\<close>

theorem group_paragraphs_terminates:
  "(\<exists>r. group_paragraphs results m = Some r)
   \<and> (\<exists>items' para'. grow_cluster m items para = Some (items', para')
          \<and> cluster_extends items para items' para')
   \<and> (case scan_candidates m items para False of
        (items', para', search_expanded) \<Rightarrow>
          cluster_extends items para items' para'
          \<and> (search_expanded \<longrightarrow> unvisited_count items' < unvisited_count items)
          \<and> (\<not> search_expanded \<longrightarrow> grow_cluster m items para = Some (items', para')))"
proof (intro conjI)
  show "\<exists>r. group_paragraphs results m = Some r"
  proof (cases "\<exists>d\<in>set results. fst d = []")
    case True
    then show ?thesis using group_paragraphs_error by blast
  next
    case False
    then have "\<forall>d\<in>set results. fst d \<noteq> []" by simp
    from group_paragraphs_ok [OF this, of m] show ?thesis by blast
  qed
  show "\<exists>items' para'. grow_cluster m items para = Some (items', para')
          \<and> cluster_extends items para items' para'"
    by (rule grow_cluster_returns)
  obtain i1 p1 e1 where sc: "scan_candidates m items para False = (i1, p1, e1)"
    by (cases "scan_candidates m items para False") auto
  from scan_candidates_extends [OF sc]
  have ext: "cluster_extends items para i1 p1"
    and e1: "e1 = (unvisited_count i1 < unvisited_count items)" by auto
  have "\<not> e1 \<longrightarrow> grow_cluster m items para = Some (i1, p1)"
    by (subst grow_cluster.simps) (simp add: sc)
  with ext e1 show "case scan_candidates m items para False of
        (items', para', search_expanded) \<Rightarrow>
          cluster_extends items para items' para'
          \<and> (search_expanded \<longrightarrow> unvisited_count items' < unvisited_count items)
          \<and> (\<not> search_expanded \<longrightarrow> grow_cluster m items para = Some (items', para'))"
    by (simp add: sc)
qed

theorem group_paragraphs_terminates_witness:
  "(\<exists>r. group_paragraphs scenario_A 2 = Some r)
   \<and> (\<exists>items' para'. grow_cluster 2 scenario_A_items [hd scenario_A_items] = Some (items', para')
          \<and> cluster_extends scenario_A_items [hd scenario_A_items] items' para')
   \<and> cluster_extends scenario_A_items [hd scenario_A_items]
        [hd scenario_A_items, (scenario_A_items ! 1)\<lparr>item_used := True\<rparr>]
        [hd scenario_A_items, (scenario_A_items ! 1)\<lparr>item_used := True\<rparr>]
   \<and> unvisited_count [hd scenario_A_items, (scenario_A_items ! 1)\<lparr>item_used := True\<rparr>]
        < unvisited_count scenario_A_items"
  using group_paragraphs_terminates [of scenario_A 2 scenario_A_items "[hd scenario_A_items]"]
  by (simp add: scenario_A_scan)

end
